theory Spec2Isabelle
  imports Main "HOL-Library.Word" "HOL-Library.Signed_Division"
begin

unbundle bit_operations_syntax

section \<open>The reaction-time game of \<^verbatim>\<open>main.cpp\<close>\<close>

text \<open>
  The program is one C++ file for a 32-bit board. Its \<^verbatim>\<open>int\<close> is 32 bits wide,
  \<^verbatim>\<open>int16_t\<close> is a \<open>16 word\<close> read with \<open>sint\<close>, \<^verbatim>\<open>uint8_t\<close> is an
  \<open>8 word\<close>. C's \<^verbatim>\<open>/\<close> and \<^verbatim>\<open>%\<close> truncate towards zero: \<open>sdiv\<close> and \<open>smod\<close>.
  \<^verbatim>\<open>>>\<close> on a signed value is the arithmetic shift of the target: \<open>drop_bit\<close> on \<open>int\<close>.
\<close>

subsection \<open>Compile-time constants\<close>

definition OLED_WIDTH :: int where
  "OLED_WIDTH = 128"

definition OLED_HEIGHT :: int where
  "OLED_HEIGHT = 64"

definition AVG_RTIME :: int where
  "AVG_RTIME = 250"

definition NUM_ROUNDS :: int where
  "NUM_ROUNDS = 4"

subsection \<open>The board: what the program reads and what it writes\<close>

type_synonym byte = "8 word"

datatype pin = P0 | P2

datatype image = happy_emoji | sad_emoji

text \<open>
  Every call the program makes on the hardware is one event, kept in call order.
  \<open>SendData\<close> is \<^verbatim>\<open>oled->sendData\<close>, \<open>Sleep\<close> is \<^verbatim>\<open>uBit.sleep\<close> (its parameter is an
  unsigned 32-bit number of milliseconds), \<open>ScrollText\<close>, \<open>ScrollInt\<close>, \<open>PrintText\<close> and
  \<open>PrintImage\<close> are the calls on \<^verbatim>\<open>uBit.display\<close>, \<open>PinWrite\<close> is \<^verbatim>\<open>setDigitalValue\<close>.
\<close>

datatype event =
    SendData "byte list"
  | Sleep "32 word"
  | ScrollText string
  | ScrollInt "32 word"
  | PrintText string
  | PrintImage image
  | PinWrite pin int

text \<open>
  The inputs of a run. \<open>rand\<close> gives the value of the i-th call of the C library's
  \<^verbatim>\<open>rand()\<close>, which returns a number between 0 and \<^verbatim>\<open>RAND_MAX\<close>, hence a natural number;
  \<open>clock\<close> the i-th reading of \<^verbatim>\<open>system_timer_current_time()\<close>; \<open>button\<close> the i-th
  poll of \<^verbatim>\<open>uBit.buttonA.isPressed()\<close>. \<open>randDelay_addr\<close> is the value the function
  designator \<^verbatim>\<open>randDelay\<close> has as the unsigned 32-bit argument of \<^verbatim>\<open>uBit.sleep\<close>.
\<close>

record env =
  rand :: "nat \<Rightarrow> nat"
  clock :: "nat \<Rightarrow> 64 word"
  button :: "nat \<Rightarrow> bool"
  randDelay_addr :: "32 word"

text \<open>
  The state of a run: the level last written to each LED pin, the events so far (oldest
  first), and how many values of each input have been consumed.
\<close>

record world =
  pins :: "pin \<Rightarrow> int"
  trace :: "event list"
  rand_calls :: nat
  clock_reads :: nat
  polls :: nat

text \<open>
  How a call can fail to return a state: a write outside the buffer (undefined behaviour
  in the source, which indexes the buffer unchecked), or a wait that never ends.
\<close>

datatype fault = OutOfBuffer int | Hang

subsection \<open>Library calls\<close>

text \<open>\<^verbatim>\<open>ManagedBuffer buf(n)\<close> of the board's runtime: a buffer of n bytes, all zero.\<close>

definition ManagedBuffer :: "int \<Rightarrow> byte list" where
  "ManagedBuffer n = replicate (nat n) 0"

text \<open>
  Modelled from the spec: \<^verbatim>\<open>SSD1306::sendData\<close> (declared in \<^verbatim>\<open>SSD1306.h\<close>) is not among
  the sources. The spec's \<^verbatim>\<open>transmit\<close> sends the buffer verbatim to the display
  peripheral's data-write entry point, as one transfer, with no acknowledgement or error.
\<close>

definition sendData :: "byte list \<Rightarrow> int \<Rightarrow> world \<Rightarrow> world" where
  "sendData bytes len w = w\<lparr>trace := trace w @ [SendData (take (nat len) bytes)]\<rparr>"

definition sleep :: "32 word \<Rightarrow> world \<Rightarrow> world" where
  "sleep ms w = w\<lparr>trace := trace w @ [Sleep ms]\<rparr>"

definition display :: "event \<Rightarrow> world \<Rightarrow> world" where
  "display ev w = w\<lparr>trace := trace w @ [ev]\<rparr>"

definition setDigitalValue :: "pin \<Rightarrow> int \<Rightarrow> world \<Rightarrow> world" where
  "setDigitalValue p v w = w\<lparr>pins := (pins w)(p := v), trace := trace w @ [PinWrite p v]\<rparr>"

definition next_rand :: "env \<Rightarrow> world \<Rightarrow> int \<times> world" where
  "next_rand e w = (int (rand e (rand_calls w)), w\<lparr>rand_calls := Suc (rand_calls w)\<rparr>)"

definition system_timer_current_time :: "env \<Rightarrow> world \<Rightarrow> 64 word \<times> world" where
  "system_timer_current_time e w = (clock e (clock_reads w), w\<lparr>clock_reads := Suc (clock_reads w)\<rparr>)"

subsection \<open>Drawing on the OLED display\<close>

text \<open>
  The index and the mask of line 49,
  \<^verbatim>\<open>buf[x + (y >> 3) * OLED_WIDTH + 1] |= (1 << (x & 7))\<close>.
  Both operands are promoted to \<^verbatim>\<open>int\<close>; with 16-bit x and y nothing overflows 32 bits.
\<close>

definition pixel_index :: "16 word \<Rightarrow> 16 word \<Rightarrow> int" where
  "pixel_index x y = sint x + drop_bit 3 (sint y) * OLED_WIDTH + 1"

definition pixel_mask :: "16 word \<Rightarrow> int" where
  "pixel_mask x = push_bit (nat (sint x AND 7)) 1"

definition drawPixel :: "16 word \<Rightarrow> 16 word \<Rightarrow> world \<Rightarrow> fault + world" where
  "drawPixel x y w =
     (let buf = ManagedBuffer (((OLED_WIDTH * OLED_HEIGHT) sdiv 8) + 1);
          buf = buf[0 := 0x40];
          i = pixel_index x y
      in if 0 \<le> i \<and> i < int (length buf)
         then Inr (sendData (buf[nat i := word_of_int (uint (buf ! nat i) OR pixel_mask x)])
                     (int (length buf)) w)
         else Inl (OutOfBuffer i))"

text \<open>The loop of \<^verbatim>\<open>displayHexImage\<close>: \<^verbatim>\<open>for (int i = 1; i < buf.length(); i++) buf[i] = hexValue\<close>.\<close>

function displayHexImage_loop :: "int \<Rightarrow> byte \<Rightarrow> byte list \<Rightarrow> byte list" where
  "displayHexImage_loop i hexValue buf =
     (if i < int (length buf)
      then displayHexImage_loop (i + 1) hexValue (buf[nat i := hexValue])
      else buf)"
  by pat_completeness auto
termination
  by (relation "measure (\<lambda>(i, hexValue, buf). nat (int (length buf) - i))") auto

definition displayHexImage :: "byte \<Rightarrow> world \<Rightarrow> world" where
  "displayHexImage hexValue w =
     (let buf = ManagedBuffer (((OLED_WIDTH * OLED_HEIGHT) sdiv 8) + 1);
          buf = buf[0 := 0x40];
          buf = displayHexImage_loop 1 hexValue buf
      in sendData buf (int (length buf)) w)"

definition clearScreen :: "world \<Rightarrow> world" where
  "clearScreen w = displayHexImage 0x0 w"

subsection \<open>The game\<close>

definition showCountdown :: "world \<Rightarrow> world" where
  "showCountdown w = display (PrintText ''GO!'') (display (ScrollText ''3 2 1'') w)"

text \<open>
  \<^verbatim>\<open>randDelay\<close> is declared \<^verbatim>\<open>int\<close> and has no return statement; no caller uses a result.
\<close>

definition randDelay :: "env \<Rightarrow> world \<Rightarrow> world" where
  "randDelay e w =
     (let (r, w) = next_rand e w;
          delay = (r smod 5 + 1) * 1000
      in sleep (word_of_int delay) w)"

definition getRandCoordinate :: "env \<Rightarrow> world \<Rightarrow> int \<times> world" where
  "getRandCoordinate e w = (let (r, w) = next_rand e w in (r smod 50 + 1, w))"

text \<open>
  \<^verbatim>\<open>while (!uBit.buttonA.isPressed()) { }\<close>: every turn of the loop is one poll and
  nothing else. The loop has no bound, so not returning is the value \<open>None\<close>.
\<close>

partial_function (option) waitButtonPress :: "env \<Rightarrow> world \<Rightarrow> world option" where
  "waitButtonPress e w =
     (if \<not> button e (polls w)
      then waitButtonPress e (w\<lparr>polls := Suc (polls w)\<rparr>)
      else Some (w\<lparr>polls := Suc (polls w)\<rparr>))"

declare waitButtonPress.simps [code]

definition clearLEDs :: "world \<Rightarrow> world" where
  "clearLEDs w = setDigitalValue P2 0 (setDigitalValue P0 0 w)"

text \<open>
  \<^verbatim>\<open>displayRandomPattern\<close> sleeps twice: inside \<^verbatim>\<open>randDelay()\<close>, and then in
  \<^verbatim>\<open>uBit.sleep(randDelay)\<close>, whose argument is the function itself.
  The two coordinates are \<^verbatim>\<open>int\<close> and are converted to the \<^verbatim>\<open>int16_t\<close> parameters.
\<close>

definition displayRandomPattern :: "env \<Rightarrow> int \<Rightarrow> world \<Rightarrow> fault + world" where
  "displayRandomPattern e round w =
     (let w = randDelay e w;
          w = sleep (randDelay_addr e) w
      in if round \<le> NUM_ROUNDS sdiv 2
         then Inr (displayHexImage 0xFF w)
         else (let (randX, w) = getRandCoordinate e w;
                   (randY, w) = getRandCoordinate e w
               in drawPixel (word_of_int randX) (word_of_int randY) w))"

text \<open>
  \<^verbatim>\<open>int reactionTime = system_timer_current_time() - startTime\<close>: the \<^verbatim>\<open>int\<close> start time
  is converted to the timer's unsigned 64-bit type (sign extension), the difference is
  cut to 32 bits. The running total is a 32-bit \<^verbatim>\<open>int\<close>; its addition is the target's
  two's-complement addition.
\<close>

definition handleButtonPress :: "env \<Rightarrow> 32 word \<Rightarrow> 32 word \<Rightarrow> world \<Rightarrow> 32 word \<times> world" where
  "handleButtonPress e startTime totalReactionTime w =
     (let (now, w) = system_timer_current_time e w;
          reactionTime = (ucast (now - scast startTime) :: 32 word);
          w = (if sint reactionTime \<le> AVG_RTIME
               then setDigitalValue P2 1 w
               else setDigitalValue P0 1 w);
          w = display (ScrollInt reactionTime) w;
          totalReactionTime = totalReactionTime + reactionTime;
          w = clearLEDs w
      in (totalReactionTime, w))"

definition performReactionRound :: "env \<Rightarrow> 32 word \<Rightarrow> int \<Rightarrow> world \<Rightarrow> fault + (32 word \<times> world)" where
  "performReactionRound e totalReactionTime round w =
     (case displayRandomPattern e round w of
        Inl f \<Rightarrow> Inl f
      | Inr w \<Rightarrow>
          (let (t, w) = system_timer_current_time e w;
               startTime = (ucast t :: 32 word)
           in case waitButtonPress e w of
                None \<Rightarrow> Inl Hang
              | Some w \<Rightarrow>
                  (let (totalReactionTime, w) = handleButtonPress e startTime totalReactionTime w
                   in Inr (totalReactionTime, clearScreen w))))"

definition displayMean :: "32 word \<Rightarrow> world \<Rightarrow> world" where
  "displayMean totalReactionTime w =
     (let meanReactionTime = (word_of_int (sint totalReactionTime sdiv NUM_ROUNDS) :: 32 word);
          w = display (ScrollText ''T'') w;
          w = display (ScrollInt meanReactionTime) w;
          facialExpression = (if sint meanReactionTime \<le> AVG_RTIME then happy_emoji else sad_emoji)
      in display (PrintImage facialExpression) w)"

text \<open>The loop of \<^verbatim>\<open>runGame\<close>: \<^verbatim>\<open>for (int round = 1; round <= NUM_ROUNDS; ++round)\<close>.\<close>

function runGame_loop :: "env \<Rightarrow> int \<Rightarrow> 32 word \<Rightarrow> world \<Rightarrow> fault + (32 word \<times> world)" where
  "runGame_loop e round totalReactionTime w =
     (if round \<le> NUM_ROUNDS
      then (case performReactionRound e totalReactionTime round w of
              Inl f \<Rightarrow> Inl f
            | Inr (totalReactionTime, w) \<Rightarrow> runGame_loop e (round + 1) totalReactionTime w)
      else Inr (totalReactionTime, w))"
  by pat_completeness auto
termination
  by (relation "measure (\<lambda>(e, round, totalReactionTime, w). nat (NUM_ROUNDS + 1 - round))") auto

definition runGame :: "env \<Rightarrow> world \<Rightarrow> fault + world" where
  "runGame e w =
     (let totalReactionTime = 0;
          w = showCountdown w
      in case runGame_loop e 1 totalReactionTime w of
           Inl f \<Rightarrow> Inl f
         | Inr (totalReactionTime, w) \<Rightarrow> Inr (displayMean totalReactionTime w))"

subsection \<open>Notions used to state the properties\<close>

text \<open>The buffer as both draw operations have it before they fill in pixels.\<close>

definition frame0 :: "byte list" where
  "frame0 = (replicate 1025 0)[0 := 0x40]"

text \<open>The state at power-on: nothing written, nothing read, both LED pins low.\<close>

definition world0 :: world where
  "world0 = \<lparr>pins = (\<lambda>_. 0), trace = [], rand_calls = 0, clock_reads = 0, polls = 0\<rparr>"

text \<open>The buffer \<^verbatim>\<open>displayHexImage\<close> transmits for a value.\<close>

definition hexFrame :: "byte \<Rightarrow> byte list" where
  "hexFrame v = displayHexImage_loop 1 v frame0"

text \<open>
  The source has no decoder. A pixel is read back from a transmitted buffer under the
  mapping \<^verbatim>\<open>drawPixel\<close> writes with: bit \<open>x AND 7\<close> of the byte at \<open>pixel_index x y\<close>.
\<close>

definition readPixel :: "byte list \<Rightarrow> 16 word \<Rightarrow> 16 word \<Rightarrow> bool" where
  "readPixel buf x y = bit (buf ! nat (pixel_index x y)) (nat (sint x AND 7))"

text \<open>
  The reaction time of the round whose start time is timer reading number i: the next
  reading minus the start time, as \<^verbatim>\<open>performReactionRound\<close> and \<^verbatim>\<open>handleButtonPress\<close>
  compute it.
\<close>

definition measured :: "env \<Rightarrow> nat \<Rightarrow> 32 word" where
  "measured e i = ucast (clock e (Suc i) - scast (ucast (clock e i) :: 32 word))"

text \<open>The numbers scrolled on the built-in display, in order.\<close>

fun scrolled :: "event list \<Rightarrow> 32 word list" where
  "scrolled [] = []"
| "scrolled (ScrollInt r # evs) = r # scrolled evs"
| "scrolled (ev # evs) = scrolled evs"

text \<open>
  Two concrete runs: one where every second poll finds the button pressed, and one where
  the button is never pressed.
\<close>

definition env0 :: env where
  "env0 = \<lparr>rand = (\<lambda>i. 7 * i + 3), clock = (\<lambda>i. of_nat (10 * i * i)),
           button = odd, randDelay_addr = 0x1C0D5\<rparr>"

definition env_idle :: env where
  "env_idle = env0\<lparr>button := (\<lambda>i. False)\<rparr>"

section \<open>Properties\<close>

subsection \<open>Sizes, indices and masks\<close>

lemma buffer_size: "(OLED_WIDTH * OLED_HEIGHT) sdiv 8 + 1 = 1025"
  by (simp add: OLED_WIDTH_def OLED_HEIGHT_def signed_divide_int_def)

lemma length_frame0: "length frame0 = 1025"
  by (simp add: frame0_def)

lemma frame0_nth: "i < 1025 \<Longrightarrow> frame0 ! i = (if i = 0 then 0x40 else 0)"
  by (simp add: frame0_def nth_list_update)

lemma pixel_index_range:
  assumes "0 \<le> sint x" "sint x < OLED_WIDTH" "0 \<le> sint y" "sint y < OLED_HEIGHT"
  shows "1 \<le> pixel_index x y \<and> pixel_index x y \<le> 1024"
proof -
  have "0 \<le> sint y div 8" "sint y div 8 \<le> 7"
    using assms by (simp_all add: OLED_HEIGHT_def)
  then show ?thesis
    using assms by (simp add: pixel_index_def OLED_WIDTH_def drop_bit_eq_div)
qed

lemma and7: "(k::int) AND 7 = k mod 8"
  using take_bit_eq_mask [of 3 k] by (simp add: take_bit_eq_mod mask_eq_exp_minus_1)

lemma and7_range: "0 \<le> (k::int) AND 7" "(k::int) AND 7 < 8"
  by (simp_all add: and7)

lemma bit_pixel_mask: "bit (word_of_int (pixel_mask x) :: byte) b \<longleftrightarrow> int b = sint x AND 7"
proof -
  have "nat (sint x AND 7) < 8"
    using and7_range(2) [of "sint x"] by linarith
  then show ?thesis
    using and7_range [of "sint x"] by (auto simp add: pixel_mask_def bit_simps)
qed

subsection \<open>\<^verbatim>\<open>drawPixel\<close>\<close>

lemma drawPixel_in_buffer:
  assumes "0 \<le> pixel_index x y" "pixel_index x y < 1025"
  shows "drawPixel x y w =
     Inr (w\<lparr>trace := trace w @
        [SendData (frame0[nat (pixel_index x y) :=
             word_of_int (uint (frame0 ! nat (pixel_index x y)) OR pixel_mask x)])]\<rparr>)"
  using assms
  by (simp add: drawPixel_def Let_def buffer_size ManagedBuffer_def sendData_def frame0_def)

lemma drawPixel_outside:
  assumes "\<not> (0 \<le> pixel_index x y \<and> pixel_index x y < 1025)"
  shows "drawPixel x y w = Inl (OutOfBuffer (pixel_index x y))"
  using assms by (auto simp add: drawPixel_def Let_def buffer_size ManagedBuffer_def)

text \<open>
  Claim C1. For x in [0, width) and y in [0, height), \<^verbatim>\<open>drawPixel\<close> transmits a buffer in
  which, among the data bytes 1 to 1024, bit \<open>x AND 7\<close> of the byte at index
  \<open>1 + x + (y >> 3) * width\<close> is set and every other bit of every data byte is 0.
\<close>

theorem drawPixel_sets_bit:
  assumes "0 \<le> sint x" "sint x < OLED_WIDTH" "0 \<le> sint y" "sint y < OLED_HEIGHT"
  shows "\<exists>buf. drawPixel x y w = Inr (w\<lparr>trace := trace w @ [SendData buf]\<rparr>) \<and>
           length buf = 1025 \<and>
           (\<forall>i b. 1 \<le> i \<and> i < 1025 \<longrightarrow>
              (bit (buf ! i) b \<longleftrightarrow>
                 int i = 1 + sint x + drop_bit 3 (sint y) * OLED_WIDTH \<and> int b = sint x AND 7))"
proof -
  let ?k = "nat (pixel_index x y)"
  let ?buf = "frame0[?k := word_of_int (uint (frame0 ! ?k) OR pixel_mask x)]"
  have rng: "1 \<le> pixel_index x y" "pixel_index x y \<le> 1024"
    using pixel_index_range [OF assms] by simp_all
  then have k: "1 \<le> ?k" "?k < 1025" by linarith+
  have run: "drawPixel x y w = Inr (w\<lparr>trace := trace w @ [SendData ?buf]\<rparr>)"
    using rng by (intro drawPixel_in_buffer) simp_all
  have at_k: "?buf ! ?k = word_of_int (pixel_mask x)"
    using k rng by (simp add: length_frame0 frame0_nth)
  have other: "?buf ! i = 0" if "1 \<le> i" "i < 1025" "i \<noteq> ?k" for i
    using that by (simp add: frame0_nth)
  have idx: "int i = 1 + sint x + drop_bit 3 (sint y) * OLED_WIDTH \<longleftrightarrow> i = ?k" for i
    using rng by (auto simp add: pixel_index_def)
  have "bit (?buf ! i) b \<longleftrightarrow>
          int i = 1 + sint x + drop_bit 3 (sint y) * OLED_WIDTH \<and> int b = sint x AND 7"
    if "1 \<le> i \<and> i < 1025" for i b
  proof (cases "i = ?k")
    case True
    then show ?thesis using at_k idx [of i] by (simp add: bit_pixel_mask)
  next
    case False
    then show ?thesis using other [of i] that idx [of i] by simp
  qed
  then show ?thesis
    using run by (intro exI [of _ ?buf]) (simp add: length_frame0)
qed

text \<open>The spec's example: the pixel (5, 0) is bit 5 of the byte at index 6.\<close>

theorem drawPixel_sets_bit_witness:
  "\<exists>buf. drawPixel 5 0 world0 = Inr (world0\<lparr>trace := trace world0 @ [SendData buf]\<rparr>) \<and>
      length buf = 1025 \<and>
      (\<forall>i b. 1 \<le> i \<and> i < 1025 \<longrightarrow> (bit (buf ! i) b \<longleftrightarrow> i = 6 \<and> b = 5))"
  using drawPixel_sets_bit [of 5 0 world0]
  by (simp add: OLED_WIDTH_def OLED_HEIGHT_def)

subsection \<open>\<^verbatim>\<open>displayHexImage\<close>\<close>

declare displayHexImage_loop.simps [simp del]

lemma length_displayHexImage_loop: "length (displayHexImage_loop i v buf) = length buf"
proof (induction i v buf rule: displayHexImage_loop.induct)
  case (1 i v buf)
  show ?case
  proof (cases "i < int (length buf)")
    case True
    with 1 show ?thesis by (subst displayHexImage_loop.simps) simp
  next
    case False
    then show ?thesis by (subst displayHexImage_loop.simps) simp
  qed
qed

text \<open>The loop started at i overwrites the bytes from i on and keeps those before.\<close>

lemma nth_displayHexImage_loop:
  "0 \<le> i \<Longrightarrow> j < length buf \<Longrightarrow>
     displayHexImage_loop i v buf ! j = (if i \<le> int j then v else buf ! j)"
proof (induction i v buf arbitrary: j rule: displayHexImage_loop.induct)
  case (1 i v buf)
  show ?case
  proof (cases "i < int (length buf)")
    case True
    have "displayHexImage_loop i v buf ! j = displayHexImage_loop (i + 1) v (buf[nat i := v]) ! j"
      using True by (subst displayHexImage_loop.simps) simp
    also have "\<dots> = (if i + 1 \<le> int j then v else buf[nat i := v] ! j)"
      using "1.IH" [OF True, of j] "1.prems" by simp
    also have "\<dots> = (if i \<le> int j then v else buf ! j)"
      using "1.prems" True by (auto simp add: nth_list_update)
    finally show ?thesis .
  next
    case False
    then show ?thesis
      using "1.prems" by (subst displayHexImage_loop.simps) simp
  qed
qed

lemma displayHexImage_frame:
  "displayHexImage v w = w\<lparr>trace := trace w @ [SendData (hexFrame v)]\<rparr>"
  by (simp add: displayHexImage_def Let_def buffer_size ManagedBuffer_def sendData_def
      hexFrame_def frame0_def length_displayHexImage_loop)

lemma length_hexFrame: "length (hexFrame v) = 1025"
  by (simp add: hexFrame_def length_displayHexImage_loop length_frame0)

lemma hexFrame_nth: "i < 1025 \<Longrightarrow> hexFrame v ! i = (if i = 0 then 0x40 else v)"
  by (simp add: hexFrame_def nth_displayHexImage_loop length_frame0 frame0_nth)

lemma bit_0xFF: "n < 8 \<Longrightarrow> bit (0xFF :: byte) n"
proof -
  have "(0xFF :: byte) = mask 8"
    by (simp add: mask_eq_exp_minus_1)
  then show "n < 8 \<Longrightarrow> bit (0xFF :: byte) n"
    by (simp only: bit_mask_iff) simp
qed

text \<open>
  Claim C3. For every 8-bit value v, \<^verbatim>\<open>displayHexImage\<close> transmits a buffer whose data
  bytes, at the indices 1 to 1024, all equal v.
\<close>

theorem displayHexImage_fills:
  "\<exists>buf. displayHexImage v w = w\<lparr>trace := trace w @ [SendData buf]\<rparr> \<and>
      length buf = 1025 \<and> (\<forall>i. 1 \<le> i \<and> i \<le> 1024 \<longrightarrow> buf ! i = v)"
  by (intro exI [of _ "hexFrame v"]) (simp add: displayHexImage_frame length_hexFrame hexFrame_nth)

text \<open>All pixels on with 0xFF, and all pixels off with 0x00, which is \<^verbatim>\<open>clearScreen\<close>.\<close>

theorem displayHexImage_fills_witness:
  "(\<exists>buf. displayHexImage 0xFF world0 = world0\<lparr>trace := trace world0 @ [SendData buf]\<rparr> \<and>
      length buf = 1025 \<and> buf ! 1 = 0xFF \<and> buf ! 1024 = 0xFF) \<and>
   (\<exists>buf. clearScreen world0 = world0\<lparr>trace := trace world0 @ [SendData buf]\<rparr> \<and>
      length buf = 1025 \<and> buf ! 1 = 0x00 \<and> buf ! 1024 = 0x00)"
  using displayHexImage_fills [of "0xFF" world0] displayHexImage_fills [of "0x00" world0]
  by (auto simp add: clearScreen_def)

text \<open>
  Claim C4. Round trip: in the buffer \<^verbatim>\<open>displayHexImage 0xFF\<close> transmits, every pixel
  (x, y) with x in [0, width) and y in [0, height) reads back as set.
\<close>

theorem fill_roundtrip:
  assumes "0 \<le> sint x" "sint x < OLED_WIDTH" "0 \<le> sint y" "sint y < OLED_HEIGHT"
  shows "\<exists>buf. displayHexImage 0xFF w = w\<lparr>trace := trace w @ [SendData buf]\<rparr> \<and>
           readPixel buf x y"
proof -
  have rng: "1 \<le> pixel_index x y" "pixel_index x y \<le> 1024"
    using pixel_index_range [OF assms] by simp_all
  then have k: "nat (pixel_index x y) < 1025" "nat (pixel_index x y) \<noteq> 0" by linarith+
  have "nat (sint x AND 7) < 8"
    using and7_range(2) [of "sint x"] by linarith
  then have "bit (0xFF :: byte) (nat (sint x AND 7))"
    by (rule bit_0xFF)
  then have "readPixel (hexFrame 0xFF) x y"
    using k by (simp add: readPixel_def hexFrame_nth)
  then show ?thesis
    by (intro exI [of _ "hexFrame 0xFF"]) (simp add: displayHexImage_frame)
qed

theorem fill_roundtrip_witness:
  "\<exists>buf. displayHexImage 0xFF world0 = world0\<lparr>trace := trace world0 @ [SendData buf]\<rparr> \<and>
      readPixel buf 127 63"
  using fill_roundtrip [of 127 63 world0]
  by (simp add: OLED_WIDTH_def OLED_HEIGHT_def)

subsection \<open>Random numbers, coordinates and the stimulus\<close>

lemma scrolled_append: "scrolled (xs @ ys) = scrolled xs @ scrolled ys"
  by (induction xs rule: scrolled.induct) simp_all

lemma smod_nat: "0 < m \<Longrightarrow> int n smod int m = int (n mod m)"
  by (cases "n = 0") (simp_all add: signed_modulo_int_def zmod_int)

lemma coordinate_range: "1 \<le> int n smod 50 + 1 \<and> int n smod 50 + 1 \<le> 50"
proof -
  have "int n smod 50 = int (n mod 50)"
    using smod_nat [of 50 n] by simp
  moreover have "n mod 50 < 50" by simp
  ultimately show ?thesis by linarith
qed

lemma sint_coordinate:
  "1 \<le> c \<Longrightarrow> c \<le> 50 \<Longrightarrow> sint (word_of_int c :: 16 word) = c"
  by (simp add: sint_sbintrunc' signed_take_bit_int_eq_self)

lemma pixel_index_coordinates:
  assumes "1 \<le> cx" "cx \<le> 50" "1 \<le> cy" "cy \<le> 50"
  shows "2 \<le> pixel_index (word_of_int cx) (word_of_int cy) \<and>
         pixel_index (word_of_int cx) (word_of_int cy) \<le> 819"
proof -
  have "0 \<le> cy div 8" "cy div 8 \<le> 6"
    using assms by simp_all
  then show ?thesis
    using assms by (simp add: pixel_index_def sint_coordinate drop_bit_eq_div OLED_WIDTH_def)
qed

lemma getRandCoordinate_eq:
  "getRandCoordinate e w =
     (int (rand e (rand_calls w)) smod 50 + 1, w\<lparr>rand_calls := Suc (rand_calls w)\<rparr>)"
  by (simp add: getRandCoordinate_def next_rand_def)

lemma randDelay_eq:
  "randDelay e w =
     w\<lparr>trace := trace w @ [Sleep (word_of_int ((int (rand e (rand_calls w)) smod 5 + 1) * 1000))],
       rand_calls := Suc (rand_calls w)\<rparr>"
  by (simp add: randDelay_def next_rand_def sleep_def)

lemma half_rounds: "NUM_ROUNDS sdiv 2 = 2"
  by (simp add: NUM_ROUNDS_def signed_divide_int_def)

lemma displayRandomPattern_returns:
  "\<exists>buf n. displayRandomPattern e round w =
       Inr (w\<lparr>trace := trace w @
               [Sleep (word_of_int ((int (rand e (rand_calls w)) smod 5 + 1) * 1000)),
                Sleep (randDelay_addr e), SendData buf],
             rand_calls := n\<rparr>) \<and>
     length buf = 1025 \<and> buf ! 0 = 0x40"
proof (cases "round \<le> 2")
  case True
  then have "displayRandomPattern e round w =
       Inr (w\<lparr>trace := trace w @
               [Sleep (word_of_int ((int (rand e (rand_calls w)) smod 5 + 1) * 1000)),
                Sleep (randDelay_addr e), SendData (hexFrame 0xFF)],
             rand_calls := Suc (rand_calls w)\<rparr>)"
    by (simp add: displayRandomPattern_def half_rounds randDelay_eq sleep_def
        displayHexImage_frame)
  then show ?thesis
    by (intro exI [of _ "hexFrame 0xFF"] exI [of _ "Suc (rand_calls w)"])
      (simp add: length_hexFrame hexFrame_nth)
next
  case False
  let ?cx = "int (rand e (Suc (rand_calls w))) smod 50 + 1"
  let ?cy = "int (rand e (Suc (Suc (rand_calls w)))) smod 50 + 1"
  let ?x = "word_of_int ?cx :: 16 word" and ?y = "word_of_int ?cy :: 16 word"
  let ?k = "nat (pixel_index ?x ?y)"
  let ?buf = "frame0[?k := word_of_int (uint (frame0 ! ?k) OR pixel_mask ?x)]"
  have rng: "2 \<le> pixel_index ?x ?y \<and> pixel_index ?x ?y \<le> 819"
    using coordinate_range [of "rand e (Suc (rand_calls w))"]
      coordinate_range [of "rand e (Suc (Suc (rand_calls w)))"]
    by (intro pixel_index_coordinates) simp_all
  then have draw: "drawPixel ?x ?y w1 = Inr (w1\<lparr>trace := trace w1 @ [SendData ?buf]\<rparr>)" for w1
    by (intro drawPixel_in_buffer) simp_all
  have "displayRandomPattern e round w =
       Inr (w\<lparr>trace := trace w @
               [Sleep (word_of_int ((int (rand e (rand_calls w)) smod 5 + 1) * 1000)),
                Sleep (randDelay_addr e), SendData ?buf],
             rand_calls := Suc (Suc (Suc (rand_calls w)))\<rparr>)"
    using False
    by (simp add: displayRandomPattern_def half_rounds randDelay_eq sleep_def
        getRandCoordinate_eq draw del: of_int_add of_int_mult)
  moreover have "?buf ! 0 = 0x40"
    using rng by (simp add: frame0_nth)
  ultimately show ?thesis
    by (intro exI [of _ ?buf] exI [of _ "Suc (Suc (Suc (rand_calls w)))"])
      (simp add: length_frame0)
qed

subsection \<open>Waiting for the button and handling the press\<close>

lemma handleButtonPress_eq:
  "handleButtonPress e startTime tot w =
     (tot + ucast (clock e (clock_reads w) - scast startTime),
      w\<lparr>pins := (\<lambda>p. 0),
        trace := trace w @
          [PinWrite (if sint (ucast (clock e (clock_reads w) - scast startTime) :: 32 word) \<le> AVG_RTIME
                     then P2 else P0) 1,
           ScrollInt (ucast (clock e (clock_reads w) - scast startTime)),
           PinWrite P0 0, PinWrite P2 0],
        clock_reads := Suc (clock_reads w)\<rparr>)"
proof -
  have pins: "f(P0 := 0, P2 := 0) = (\<lambda>p. 0)" for f :: "pin \<Rightarrow> int"
  proof
    fix p show "(f(P0 := 0, P2 := 0)) p = 0" by (cases p) simp_all
  qed
  show ?thesis
    by (simp add: handleButtonPress_def system_timer_current_time_def Let_def
        setDigitalValue_def display_def clearLEDs_def pins)
qed


lemma waitButtonPress_pressed:
  "button e (polls w + d) \<Longrightarrow> (\<forall>j<d. \<not> button e (polls w + j)) \<Longrightarrow>
     waitButtonPress e w = Some (w\<lparr>polls := Suc (polls w + d)\<rparr>)"
proof (induction d arbitrary: w)
  case 0
  then show ?case by (subst waitButtonPress.simps) simp
next
  case (Suc d)
  let ?w = "w\<lparr>polls := Suc (polls w)\<rparr>"
  have "\<not> button e (polls w + 0)"
    using Suc.prems(2) by blast
  then have "waitButtonPress e w = waitButtonPress e ?w"
    by (subst waitButtonPress.simps) simp
  moreover have "button e (polls ?w + d)"
    using Suc.prems(1) by simp
  moreover have "\<forall>j<d. \<not> button e (polls ?w + j)"
  proof (intro allI impI)
    fix j assume "j < d"
    then have "\<not> button e (polls w + Suc j)"
      using Suc.prems(2) by (meson Suc_less_eq)
    then show "\<not> button e (polls ?w + j)" by simp
  qed
  ultimately show ?case
    using Suc.IH [of ?w] by simp
qed

lemma waitButtonPress_Some:
  assumes "waitButtonPress e w = Some w'"
  shows "\<exists>d. button e (polls w + d) \<and> (\<forall>j<d. \<not> button e (polls w + j)) \<and>
         w' = w\<lparr>polls := Suc (polls w + d)\<rparr>"
proof -
  let ?P = "\<lambda>e w w'. \<exists>d. button e (polls w + d) \<and> (\<forall>j<d. \<not> button e (polls w + j)) \<and>
         w' = w\<lparr>polls := Suc (polls w + d)\<rparr>"
  have step: "?P e w w'"
    if IH: "\<And>e w w'. wait e w = Some w' \<Longrightarrow> ?P e w w'"
      and eq: "(if \<not> button e (polls w) then wait e (w\<lparr>polls := Suc (polls w)\<rparr>)
                else Some (w\<lparr>polls := Suc (polls w)\<rparr>)) = Some w'"
    for wait e w w'
  proof (cases "button e (polls w)")
    case True
    with eq have "w' = w\<lparr>polls := Suc (polls w)\<rparr>" by simp
    with True show ?thesis by (intro exI [of _ 0]) simp
  next
    case False
    with eq have "wait e (w\<lparr>polls := Suc (polls w)\<rparr>) = Some w'" by simp
    from IH [OF this] obtain d where d: "button e (Suc (polls w) + d)"
      "\<forall>j<d. \<not> button e (Suc (polls w) + j)" "w' = w\<lparr>polls := Suc (Suc (polls w) + d)\<rparr>"
      by auto
    have "\<forall>j<Suc d. \<not> button e (polls w + j)"
      using False d(2) by (auto simp add: less_Suc_eq_0_disj)
    with d(1,3) show ?thesis by (intro exI [of _ "Suc d"]) simp
  qed
  show ?thesis
    by (rule waitButtonPress.raw_induct [where P = ?P, OF step assms])
qed

lemma waitButtonPress_Some_iff:
  "waitButtonPress e w = Some w' \<longleftrightarrow>
     (\<exists>k\<ge>polls w. button e k \<and> (\<forall>j. polls w \<le> j \<and> j < k \<longrightarrow> \<not> button e j) \<and>
        w' = w\<lparr>polls := Suc k\<rparr>)"
proof
  assume "waitButtonPress e w = Some w'"
  then obtain d where d: "button e (polls w + d)" "\<forall>j<d. \<not> button e (polls w + j)"
    "w' = w\<lparr>polls := Suc (polls w + d)\<rparr>"
    using waitButtonPress_Some by blast
  have "\<not> button e j" if "polls w \<le> j \<and> j < polls w + d" for j
  proof -
    from that have "j - polls w < d" "j = polls w + (j - polls w)" by linarith+
    then show ?thesis using d(2) by metis
  qed
  with d(1,3) show "\<exists>k\<ge>polls w. button e k \<and> (\<forall>j. polls w \<le> j \<and> j < k \<longrightarrow> \<not> button e j) \<and>
        w' = w\<lparr>polls := Suc k\<rparr>"
    by (intro exI [of _ "polls w + d"]) simp
next
  assume "\<exists>k\<ge>polls w. button e k \<and> (\<forall>j. polls w \<le> j \<and> j < k \<longrightarrow> \<not> button e j) \<and>
        w' = w\<lparr>polls := Suc k\<rparr>"
  then obtain k where k: "polls w \<le> k" "button e k"
    "\<forall>j. polls w \<le> j \<and> j < k \<longrightarrow> \<not> button e j" "w' = w\<lparr>polls := Suc k\<rparr>"
    by blast
  have "waitButtonPress e w = Some (w\<lparr>polls := Suc (polls w + (k - polls w))\<rparr>)"
    using k(1,2,3) by (intro waitButtonPress_pressed) simp_all
  with k(1,4) show "waitButtonPress e w = Some w'" by simp
qed

lemma waitButtonPress_None_iff:
  "waitButtonPress e w = None \<longleftrightarrow> (\<forall>k\<ge>polls w. \<not> button e k)"
proof
  assume none: "waitButtonPress e w = None"
  show "\<forall>k\<ge>polls w. \<not> button e k"
  proof (intro allI impI notI)
    fix k assume "polls w \<le> k" "button e k"
    then have ex: "\<exists>k. polls w \<le> k \<and> button e k" by blast
    define m where "m = (LEAST k. polls w \<le> k \<and> button e k)"
    have m: "polls w \<le> m \<and> button e m"
      unfolding m_def using ex by (rule LeastI_ex)
    have "\<not> button e j" if "polls w \<le> j \<and> j < m" for j
      using that not_less_Least [of j "\<lambda>k. polls w \<le> k \<and> button e k"]
      unfolding m_def by blast
    with m have "waitButtonPress e w = Some (w\<lparr>polls := Suc m\<rparr>)"
      by (subst waitButtonPress_Some_iff) blast
    with none show False by simp
  qed
next
  assume never: "\<forall>k\<ge>polls w. \<not> button e k"
  show "waitButtonPress e w = None"
  proof (cases "waitButtonPress e w")
    case None
    then show ?thesis .
  next
    case (Some w')
    then show ?thesis
      using never by (auto simp add: waitButtonPress_Some_iff)
  qed
qed

lemma performReactionRound_unfold:
  "\<exists>buf n.
     length buf = 1025 \<and> buf ! 0 = 0x40 \<and>
     performReactionRound e tot round w =
       (case waitButtonPress e
               (w\<lparr>trace := trace w @
                     [Sleep (word_of_int ((int (rand e (rand_calls w)) smod 5 + 1) * 1000)),
                      Sleep (randDelay_addr e), SendData buf],
                   rand_calls := n, clock_reads := Suc (clock_reads w)\<rparr>) of
          None \<Rightarrow> Inl Hang
        | Some w3 \<Rightarrow>
            Inr (tot + measured e (clock_reads w),
                 w3\<lparr>pins := (\<lambda>p. 0),
                    trace := trace w3 @
                      [PinWrite (if sint (measured e (clock_reads w)) \<le> AVG_RTIME then P2 else P0) 1,
                       ScrollInt (measured e (clock_reads w)),
                       PinWrite P0 0, PinWrite P2 0, SendData (hexFrame 0)],
                    clock_reads := Suc (Suc (clock_reads w))\<rparr>))"
proof -
  obtain buf n where dr: "displayRandomPattern e round w =
       Inr (w\<lparr>trace := trace w @
               [Sleep (word_of_int ((int (rand e (rand_calls w)) smod 5 + 1) * 1000)),
                Sleep (randDelay_addr e), SendData buf],
             rand_calls := n\<rparr>)" and buf: "length buf = 1025" "buf ! 0 = 0x40"
    using displayRandomPattern_returns [of e round w] by blast
  let ?w2 = "w\<lparr>trace := trace w @
                     [Sleep (word_of_int ((int (rand e (rand_calls w)) smod 5 + 1) * 1000)),
                      Sleep (randDelay_addr e), SendData buf],
                   rand_calls := n, clock_reads := Suc (clock_reads w)\<rparr>"
  have reads: "clock_reads w3 = Suc (clock_reads w)" if "waitButtonPress e ?w2 = Some w3" for w3
    using that by (auto simp add: waitButtonPress_Some_iff)
  have "performReactionRound e tot round w =
       (case waitButtonPress e ?w2 of
          None \<Rightarrow> Inl Hang
        | Some w3 \<Rightarrow>
            Inr (tot + measured e (clock_reads w),
                 w3\<lparr>pins := (\<lambda>p. 0),
                    trace := trace w3 @
                      [PinWrite (if sint (measured e (clock_reads w)) \<le> AVG_RTIME then P2 else P0) 1,
                       ScrollInt (measured e (clock_reads w)),
                       PinWrite P0 0, PinWrite P2 0, SendData (hexFrame 0)],
                    clock_reads := Suc (Suc (clock_reads w))\<rparr>))"
  proof (cases "waitButtonPress e ?w2")
    case None
    then show ?thesis
      by (simp add: performReactionRound_def dr system_timer_current_time_def
          del: of_int_add of_int_mult)
  next
    case (Some w3)
    then show ?thesis
      using reads [OF Some]
      by (simp add: performReactionRound_def dr system_timer_current_time_def
          handleButtonPress_eq clearScreen_def displayHexImage_frame measured_def
          del: of_int_add of_int_mult)
  qed
  with buf show ?thesis by blast
qed


subsection \<open>One round\<close>

lemma performReactionRound_Inr:
  assumes "performReactionRound e tot round w = Inr (t', w')"
  shows "t' = tot + measured e (clock_reads w)"
    and "clock_reads w' = clock_reads w + 2"
    and "pins w' = (\<lambda>p. 0)"
    and "scrolled (trace w') = scrolled (trace w) @ [measured e (clock_reads w)]"
    and "\<exists>k\<ge>polls w. button e k \<and> (\<forall>j. polls w \<le> j \<and> j < k \<longrightarrow> \<not> button e j) \<and>
           polls w' = Suc k"
proof -
  obtain buf n where
    unf: "performReactionRound e tot round w =
       (case waitButtonPress e
               (w\<lparr>trace := trace w @
                     [Sleep (word_of_int ((int (rand e (rand_calls w)) smod 5 + 1) * 1000)),
                      Sleep (randDelay_addr e), SendData buf],
                   rand_calls := n, clock_reads := Suc (clock_reads w)\<rparr>) of
          None \<Rightarrow> Inl Hang
        | Some w3 \<Rightarrow>
            Inr (tot + measured e (clock_reads w),
                 w3\<lparr>pins := (\<lambda>p. 0),
                    trace := trace w3 @
                      [PinWrite (if sint (measured e (clock_reads w)) \<le> AVG_RTIME then P2 else P0) 1,
                       ScrollInt (measured e (clock_reads w)),
                       PinWrite P0 0, PinWrite P2 0, SendData (hexFrame 0)],
                    clock_reads := Suc (Suc (clock_reads w))\<rparr>))"
    using performReactionRound_unfold [of e tot round w] by blast
  let ?w2 = "w\<lparr>trace := trace w @
                     [Sleep (word_of_int ((int (rand e (rand_calls w)) smod 5 + 1) * 1000)),
                      Sleep (randDelay_addr e), SendData buf],
                   rand_calls := n, clock_reads := Suc (clock_reads w)\<rparr>"
  from assms unf obtain w3 where w3: "waitButtonPress e ?w2 = Some w3"
    and res: "t' = tot + measured e (clock_reads w)"
      "w' = w3\<lparr>pins := (\<lambda>p. 0),
                    trace := trace w3 @
                      [PinWrite (if sint (measured e (clock_reads w)) \<le> AVG_RTIME then P2 else P0) 1,
                       ScrollInt (measured e (clock_reads w)),
                       PinWrite P0 0, PinWrite P2 0, SendData (hexFrame 0)],
                    clock_reads := Suc (Suc (clock_reads w))\<rparr>"
    by (cases "waitButtonPress e ?w2") simp_all
  from w3 obtain k where k: "polls w \<le> k" "button e k"
    "\<forall>j. polls w \<le> j \<and> j < k \<longrightarrow> \<not> button e j" "w3 = ?w2\<lparr>polls := Suc k\<rparr>"
    by (auto simp add: waitButtonPress_Some_iff)
  show "t' = tot + measured e (clock_reads w)" by (fact res(1))
  show "clock_reads w' = clock_reads w + 2" by (simp add: res(2))
  show "pins w' = (\<lambda>p. 0)" by (simp add: res(2))
  show "scrolled (trace w') = scrolled (trace w) @ [measured e (clock_reads w)]"
    by (simp add: res(2) k(4) scrolled_append)
  show "\<exists>k\<ge>polls w. button e k \<and> (\<forall>j. polls w \<le> j \<and> j < k \<longrightarrow> \<not> button e j) \<and>
           polls w' = Suc k"
    using k(1,2,3) by (intro exI [of _ k]) (simp add: res(2) k(4))
qed

lemma performReactionRound_never:
  assumes "\<forall>k\<ge>polls w. \<not> button e k"
  shows "performReactionRound e tot round w = Inl Hang"
proof -
  obtain buf n where
    unf: "performReactionRound e tot round w =
       (case waitButtonPress e
               (w\<lparr>trace := trace w @
                     [Sleep (word_of_int ((int (rand e (rand_calls w)) smod 5 + 1) * 1000)),
                      Sleep (randDelay_addr e), SendData buf],
                   rand_calls := n, clock_reads := Suc (clock_reads w)\<rparr>) of
          None \<Rightarrow> Inl Hang
        | Some w3 \<Rightarrow>
            Inr (tot + measured e (clock_reads w),
                 w3\<lparr>pins := (\<lambda>p. 0),
                    trace := trace w3 @
                      [PinWrite (if sint (measured e (clock_reads w)) \<le> AVG_RTIME then P2 else P0) 1,
                       ScrollInt (measured e (clock_reads w)),
                       PinWrite P0 0, PinWrite P2 0, SendData (hexFrame 0)],
                    clock_reads := Suc (Suc (clock_reads w))\<rparr>))"
    using performReactionRound_unfold [of e tot round w] by blast
  let ?w2 = "w\<lparr>trace := trace w @
                     [Sleep (word_of_int ((int (rand e (rand_calls w)) smod 5 + 1) * 1000)),
                      Sleep (randDelay_addr e), SendData buf],
                   rand_calls := n, clock_reads := Suc (clock_reads w)\<rparr>"
  have "waitButtonPress e ?w2 = None"
    using assms by (simp add: waitButtonPress_None_iff)
  with unf show ?thesis by simp
qed

lemma performReactionRound_pressed:
  assumes "polls w \<le> k" "button e k"
  shows "\<exists>t' w'. performReactionRound e tot round w = Inr (t', w')"
proof -
  obtain buf n where
    unf: "performReactionRound e tot round w =
       (case waitButtonPress e
               (w\<lparr>trace := trace w @
                     [Sleep (word_of_int ((int (rand e (rand_calls w)) smod 5 + 1) * 1000)),
                      Sleep (randDelay_addr e), SendData buf],
                   rand_calls := n, clock_reads := Suc (clock_reads w)\<rparr>) of
          None \<Rightarrow> Inl Hang
        | Some w3 \<Rightarrow>
            Inr (tot + measured e (clock_reads w),
                 w3\<lparr>pins := (\<lambda>p. 0),
                    trace := trace w3 @
                      [PinWrite (if sint (measured e (clock_reads w)) \<le> AVG_RTIME then P2 else P0) 1,
                       ScrollInt (measured e (clock_reads w)),
                       PinWrite P0 0, PinWrite P2 0, SendData (hexFrame 0)],
                    clock_reads := Suc (Suc (clock_reads w))\<rparr>))"
    using performReactionRound_unfold [of e tot round w] by blast
  let ?w2 = "w\<lparr>trace := trace w @
                     [Sleep (word_of_int ((int (rand e (rand_calls w)) smod 5 + 1) * 1000)),
                      Sleep (randDelay_addr e), SendData buf],
                   rand_calls := n, clock_reads := Suc (clock_reads w)\<rparr>"
  have "waitButtonPress e ?w2 \<noteq> None"
    using assms by (auto simp add: waitButtonPress_None_iff)
  then obtain w3 where "waitButtonPress e ?w2 = Some w3" by blast
  with unf show ?thesis by simp
qed

subsection \<open>The whole game\<close>

declare runGame_loop.simps [simp del]

lemma runGame_loop_step:
  assumes "round \<le> NUM_ROUNDS" "runGame_loop e round tot w = Inr r"
  shows "\<exists>t1 w1. performReactionRound e tot round w = Inr (t1, w1) \<and>
           runGame_loop e (round + 1) t1 w1 = Inr r"
proof (cases "performReactionRound e tot round w")
  case (Inl f)
  with assms show ?thesis by (subst (asm) runGame_loop.simps) simp
next
  case (Inr p)
  with assms show ?thesis
    by (subst (asm) runGame_loop.simps) (cases p, simp)
qed

lemma runGame_loop_done:
  "\<not> round \<le> NUM_ROUNDS \<Longrightarrow> runGame_loop e round tot w = Inr (tot, w)"
  by (subst runGame_loop.simps) simp

lemma runGame_loop_returns:
  assumes "\<forall>n. \<exists>k\<ge>n. button e k"
  shows "\<exists>r. runGame_loop e round tot w = Inr r"
  using assms
proof (induction e round tot w rule: runGame_loop.induct)
  case (1 e round tot w)
  show ?case
  proof (cases "round \<le> NUM_ROUNDS")
    case True
    obtain k where "polls w \<le> k" "button e k"
      using "1.prems" by blast
    then obtain t1 w1 where r: "performReactionRound e tot round w = Inr (t1, w1)"
      using performReactionRound_pressed by blast
    from "1.IH" [OF True r refl "1.prems"]
    obtain r' where "runGame_loop e (round + 1) t1 w1 = Inr r'" by blast
    with True r show ?thesis
      by (subst runGame_loop.simps) simp
  next
    case False
    then show ?thesis by (simp add: runGame_loop_done)
  qed
qed

lemma runGame_loop_four:
  assumes "runGame_loop e 1 tot w = Inr (t', w')"
  shows "t' = tot + measured e (clock_reads w) + measured e (clock_reads w + 2) +
              measured e (clock_reads w + 4) + measured e (clock_reads w + 6)"
    and "clock_reads w' = clock_reads w + 8"
    and "pins w' = (\<lambda>p. 0)"
    and "scrolled (trace w') = scrolled (trace w) @
           [measured e (clock_reads w), measured e (clock_reads w + 2),
            measured e (clock_reads w + 4), measured e (clock_reads w + 6)]"
proof -
  have le: "(1::int) \<le> NUM_ROUNDS" "(1::int) + 1 \<le> NUM_ROUNDS" "(1::int) + 1 + 1 \<le> NUM_ROUNDS"
    "(1::int) + 1 + 1 + 1 \<le> NUM_ROUNDS" "\<not> (1::int) + 1 + 1 + 1 + 1 \<le> NUM_ROUNDS"
    by (simp_all add: NUM_ROUNDS_def)
  from runGame_loop_step [OF le(1) assms] obtain t1 w1 where
    r1: "performReactionRound e tot 1 w = Inr (t1, w1)"
    and l1: "runGame_loop e (1 + 1) t1 w1 = Inr (t', w')" by blast
  from runGame_loop_step [OF le(2) l1] obtain t2 w2 where
    r2: "performReactionRound e t1 (1 + 1) w1 = Inr (t2, w2)"
    and l2: "runGame_loop e (1 + 1 + 1) t2 w2 = Inr (t', w')" by blast
  from runGame_loop_step [OF le(3) l2] obtain t3 w3 where
    r3: "performReactionRound e t2 (1 + 1 + 1) w2 = Inr (t3, w3)"
    and l3: "runGame_loop e (1 + 1 + 1 + 1) t3 w3 = Inr (t', w')" by blast
  from runGame_loop_step [OF le(4) l3] obtain t4 w4 where
    r4: "performReactionRound e t3 (1 + 1 + 1 + 1) w3 = Inr (t4, w4)"
    and l4: "runGame_loop e (1 + 1 + 1 + 1 + 1) t4 w4 = Inr (t', w')" by blast
  from l4 runGame_loop_done [OF le(5), of e t4 w4] have fin: "t' = t4" "w' = w4"
    by simp_all
  note a1 = performReactionRound_Inr [OF r1]
  note a2 = performReactionRound_Inr [OF r2]
  note a3 = performReactionRound_Inr [OF r3]
  note a4 = performReactionRound_Inr [OF r4]
  have c1: "clock_reads w1 = clock_reads w + 2" by (fact a1(2))
  have c2: "clock_reads w2 = clock_reads w + 4" using a2(2) c1 by simp
  have c3: "clock_reads w3 = clock_reads w + 6" using a3(2) c2 by simp
  show "t' = tot + measured e (clock_reads w) + measured e (clock_reads w + 2) +
              measured e (clock_reads w + 4) + measured e (clock_reads w + 6)"
    by (simp only: fin a4(1) a3(1) a2(1) a1(1) c1 c2 c3)
  show "clock_reads w' = clock_reads w + 8"
    using a4(2) c3 fin by simp
  show "pins w' = (\<lambda>p. 0)"
    using a4(3) fin by simp
  show "scrolled (trace w') = scrolled (trace w) @
           [measured e (clock_reads w), measured e (clock_reads w + 2),
            measured e (clock_reads w + 4), measured e (clock_reads w + 6)]"
    by (simp add: fin a4(4) a3(4) a2(4) a1(4) c1 c2 c3)
qed

lemma runGame_Inr:
  assumes "runGame e w = Inr w'"
  shows "\<exists>t' w4. runGame_loop e 1 0 (showCountdown w) = Inr (t', w4) \<and> w' = displayMean t' w4"
proof (cases "runGame_loop e 1 0 (showCountdown w)")
  case (Inl f)
  with assms show ?thesis by (simp add: runGame_def)
next
  case (Inr p)
  with assms show ?thesis by (cases p) (simp add: runGame_def)
qed

lemma displayMean_eq:
  "displayMean t w =
     w\<lparr>trace := trace w @
         [ScrollText ''T'', ScrollInt (word_of_int (sint t sdiv NUM_ROUNDS)),
          PrintImage (if sint (word_of_int (sint t sdiv NUM_ROUNDS) :: 32 word) \<le> AVG_RTIME
                      then happy_emoji else sad_emoji)]\<rparr>"
  by (simp add: displayMean_def display_def Let_def)

lemma showCountdown_eq:
  "showCountdown w = w\<lparr>trace := trace w @ [ScrollText ''3 2 1'', PrintText ''GO!'']\<rparr>"
  by (simp add: showCountdown_def display_def)

text \<open>
  Claim C7. A run of \<^verbatim>\<open>runGame\<close> that returns has performed four rounds (eight timer
  readings, four reaction times scrolled), has added each round's reaction time to a total
  that starts at 0, and has scrolled last the total divided by \<open>NUM_ROUNDS\<close> with C's
  integer division. A run returns whenever the button is pressed again and again.
\<close>

theorem runGame_average:
  "(runGame e w = Inr w' \<longrightarrow>
      (let r1 = measured e (clock_reads w); r2 = measured e (clock_reads w + 2);
           r3 = measured e (clock_reads w + 4); r4 = measured e (clock_reads w + 6);
           totalReactionTime = 0 + r1 + r2 + r3 + r4
       in clock_reads w' = clock_reads w + 8 \<and>
          scrolled (trace w') = scrolled (trace w) @
            [r1, r2, r3, r4, word_of_int (sint totalReactionTime sdiv NUM_ROUNDS)])) \<and>
   ((\<forall>n. \<exists>k\<ge>n. button e k) \<longrightarrow> (\<exists>w'. runGame e w = Inr w'))"
proof (intro conjI impI)
  assume "runGame e w = Inr w'"
  then obtain t' w4 where loop: "runGame_loop e 1 0 (showCountdown w) = Inr (t', w4)"
    and w': "w' = displayMean t' w4"
    using runGame_Inr by blast
  note four = runGame_loop_four [OF loop]
  have cr: "clock_reads (showCountdown w) = clock_reads w"
    and sc: "scrolled (trace (showCountdown w)) = scrolled (trace w)"
    by (simp_all add: showCountdown_eq scrolled_append)
  show "let r1 = measured e (clock_reads w); r2 = measured e (clock_reads w + 2);
           r3 = measured e (clock_reads w + 4); r4 = measured e (clock_reads w + 6);
           totalReactionTime = 0 + r1 + r2 + r3 + r4
       in clock_reads w' = clock_reads w + 8 \<and>
          scrolled (trace w') = scrolled (trace w) @
            [r1, r2, r3, r4, word_of_int (sint totalReactionTime sdiv NUM_ROUNDS)]"
    using four(1,2,4) by (simp add: Let_def w' displayMean_eq scrolled_append cr sc)
next
  assume "\<forall>n. \<exists>k\<ge>n. button e k"
  then obtain r where "runGame_loop e 1 0 (showCountdown w) = Inr r"
    using runGame_loop_returns by blast
  then show "\<exists>w'. runGame e w = Inr w'"
    by (cases r) (simp add: runGame_def)
qed

theorem runGame_average_witness:
  "\<exists>w'. runGame env0 world0 = Inr w' \<and> clock_reads w' = 8 \<and>
      scrolled (trace w') = [10, 50, 90, 130, 70]"
proof -
  have "\<exists>k\<ge>n. button env0 k" for n
    by (intro exI [of _ "Suc (2 * n)"]) (simp add: env0_def)
  then obtain w' where run: "runGame env0 world0 = Inr w'"
    using runGame_average [of env0 world0] by blast
  have m: "measured env0 0 = 10" "measured env0 2 = 50" "measured env0 4 = 90"
    "measured env0 6 = 130"
    by (simp_all add: measured_def env0_def)
  have "clock_reads w' = 8 \<and> scrolled (trace w') = [10, 50, 90, 130, 70]"
    using runGame_average [of env0 world0 w'] run
    by (simp add: Let_def world0_def measured_def env0_def NUM_ROUNDS_def signed_divide_int_def)
  with run show ?thesis by blast
qed

section \<open>Further properties\<close>

subsection \<open>Every transmitted buffer\<close>

text \<open>
  An index of 0 is reached only with the low three bits of x all set, so the mask is 0x80
  and the command byte becomes 0xC0.
\<close>

lemma index_zero_mask:
  assumes "pixel_index x y = 0"
  shows "pixel_mask x = 128"
proof -
  have "sint x + drop_bit 3 (sint y) * 128 + 1 = 0"
    using assms by (simp add: pixel_index_def OLED_WIDTH_def)
  then have "sint x mod 8 = 7"
    by presburger
  then show ?thesis
    by (simp add: pixel_mask_def and7)
qed

lemma drawPixel_first_byte:
  assumes "0 \<le> pixel_index x y" "pixel_index x y < 1025"
  shows "\<exists>buf. drawPixel x y w = Inr (w\<lparr>trace := trace w @ [SendData buf]\<rparr>) \<and>
           length buf = 1025 \<and>
           buf ! 0 = (if pixel_index x y = 0 then 0xC0 else 0x40)"
proof -
  let ?k = "nat (pixel_index x y)"
  let ?buf = "frame0[?k := word_of_int (uint (frame0 ! ?k) OR pixel_mask x)]"
  have run: "drawPixel x y w = Inr (w\<lparr>trace := trace w @ [SendData ?buf]\<rparr>)"
    using assms by (rule drawPixel_in_buffer)
  have "?buf ! 0 = (if pixel_index x y = 0 then 0xC0 else 0x40)"
  proof (cases "pixel_index x y = 0")
    case True
    then show ?thesis
      by (simp add: index_zero_mask length_frame0 frame0_nth)
  next
    case False
    with assms have "?k \<noteq> 0" by linarith
    with False show ?thesis
      by (simp add: frame0_nth)
  qed
  with run show ?thesis
    by (intro exI [of _ ?buf]) (simp add: length_frame0)
qed

text \<open>
  \<^verbatim>\<open>drawPixel(127, -1)\<close> computes the index 0 and returns normally: the buffer it transmits
  has 1025 bytes, and its first byte is 0xC0, not the command byte 0x40.
\<close>

theorem draw_buffer_framing_counterexample:
  "drawPixel 127 (- 1) world0 = Inr (world0\<lparr>trace := [SendData (frame0[0 := 0xC0])]\<rparr>) \<and>
   length (frame0[0 := 0xC0]) = 1025 \<and>
   (frame0[0 := 0xC0]) ! 0 \<noteq> (0x40 :: byte)"
proof -
  have i: "pixel_index 127 (- 1) = 0" and m: "pixel_mask 127 = 128"
    by (simp_all add: pixel_index_def pixel_mask_def OLED_WIDTH_def)
  have "drawPixel 127 (- 1) world0 = Inr (world0\<lparr>trace := [SendData (frame0[0 := 0xC0])]\<rparr>)"
    using drawPixel_in_buffer [of 127 "- 1" world0] by (simp add: i m frame0_nth world0_def)
  then show ?thesis
    by (simp add: length_frame0)
qed

text \<open>
  Claim C2, as amended. Every buffer a draw operation transmits has
  \<open>(width * height) / 8 + 1 = 1025\<close> bytes and goes out as one \<open>SendData\<close> transfer.
  Its first byte is the command byte 0x40 for \<^verbatim>\<open>displayHexImage\<close> with any value, for
  \<^verbatim>\<open>drawPixel\<close> with coordinates in the range the spec gives the operation, and for the
  stimulus of every round, whichever of the two \<^verbatim>\<open>displayRandomPattern\<close> draws. For
  \<^verbatim>\<open>drawPixel\<close> with any coordinates whose index lies in the buffer, the first byte is 0x40
  unless the index is 0, and is 0xC0 then.
\<close>

theorem draw_buffer_framing:
  "(\<exists>buf. displayHexImage v w = w\<lparr>trace := trace w @ [SendData buf]\<rparr> \<and>
       length buf = nat ((OLED_WIDTH * OLED_HEIGHT) sdiv 8 + 1) \<and> length buf = 1025 \<and>
       buf ! 0 = 0x40) \<and>
   (0 \<le> sint x \<and> sint x < OLED_WIDTH \<and> 0 \<le> sint y \<and> sint y < OLED_HEIGHT \<longrightarrow>
     (\<exists>buf. drawPixel x y w = Inr (w\<lparr>trace := trace w @ [SendData buf]\<rparr>) \<and>
       length buf = nat ((OLED_WIDTH * OLED_HEIGHT) sdiv 8 + 1) \<and> length buf = 1025 \<and>
       buf ! 0 = 0x40)) \<and>
   (\<exists>buf d n. displayRandomPattern e round w =
       Inr (w\<lparr>trace := trace w @ [Sleep d, Sleep (randDelay_addr e), SendData buf],
             rand_calls := n\<rparr>) \<and>
       length buf = 1025 \<and> buf ! 0 = 0x40) \<and>
   (0 \<le> pixel_index x y \<and> pixel_index x y < 1025 \<longrightarrow>
     (\<exists>buf. drawPixel x y w = Inr (w\<lparr>trace := trace w @ [SendData buf]\<rparr>) \<and>
       length buf = nat ((OLED_WIDTH * OLED_HEIGHT) sdiv 8 + 1) \<and> length buf = 1025 \<and>
       buf ! 0 = (if pixel_index x y = 0 then 0xC0 else 0x40)))"
proof (intro conjI impI)
  show "\<exists>buf. displayHexImage v w = w\<lparr>trace := trace w @ [SendData buf]\<rparr> \<and>
       length buf = nat ((OLED_WIDTH * OLED_HEIGHT) sdiv 8 + 1) \<and> length buf = 1025 \<and>
       buf ! 0 = 0x40"
    by (intro exI [of _ "hexFrame v"])
      (simp add: displayHexImage_frame length_hexFrame hexFrame_nth buffer_size)
next
  assume a: "0 \<le> sint x \<and> sint x < OLED_WIDTH \<and> 0 \<le> sint y \<and> sint y < OLED_HEIGHT"
  have rng: "1 \<le> pixel_index x y" "pixel_index x y \<le> 1024"
    using pixel_index_range [of x y] a by simp_all
  then have "0 \<le> pixel_index x y" "pixel_index x y < 1025" "pixel_index x y \<noteq> 0"
    by linarith+
  then show "\<exists>buf. drawPixel x y w = Inr (w\<lparr>trace := trace w @ [SendData buf]\<rparr>) \<and>
       length buf = nat ((OLED_WIDTH * OLED_HEIGHT) sdiv 8 + 1) \<and> length buf = 1025 \<and>
       buf ! 0 = 0x40"
    using drawPixel_first_byte [of x y w] by (simp add: buffer_size)
next
  show "\<exists>buf d n. displayRandomPattern e round w =
       Inr (w\<lparr>trace := trace w @ [Sleep d, Sleep (randDelay_addr e), SendData buf],
             rand_calls := n\<rparr>) \<and>
       length buf = 1025 \<and> buf ! 0 = 0x40"
    using displayRandomPattern_returns [of e round w] by blast
next
  assume "0 \<le> pixel_index x y \<and> pixel_index x y < 1025"
  then show "\<exists>buf. drawPixel x y w = Inr (w\<lparr>trace := trace w @ [SendData buf]\<rparr>) \<and>
       length buf = nat ((OLED_WIDTH * OLED_HEIGHT) sdiv 8 + 1) \<and> length buf = 1025 \<and>
       buf ! 0 = (if pixel_index x y = 0 then 0xC0 else 0x40)"
    using drawPixel_first_byte [of x y w] by (simp add: buffer_size)
qed

text \<open>
  In range at (127, 63); out of range but clear of the command byte at (128, 0); on the
  command byte at (-1, 0).
\<close>

theorem draw_buffer_framing_witness:
  "(\<exists>buf. displayHexImage 0xFF world0 = world0\<lparr>trace := trace world0 @ [SendData buf]\<rparr> \<and>
       length buf = 1025 \<and> buf ! 0 = 0x40) \<and>
   (\<exists>buf. drawPixel 127 63 world0 = Inr (world0\<lparr>trace := trace world0 @ [SendData buf]\<rparr>) \<and>
       length buf = 1025 \<and> buf ! 0 = 0x40) \<and>
   (\<exists>buf. drawPixel 128 0 world0 = Inr (world0\<lparr>trace := trace world0 @ [SendData buf]\<rparr>) \<and>
       length buf = 1025 \<and> buf ! 0 = 0x40) \<and>
   (\<exists>buf. drawPixel (- 1) 0 world0 = Inr (world0\<lparr>trace := trace world0 @ [SendData buf]\<rparr>) \<and>
       length buf = 1025 \<and> buf ! 0 = 0xC0)"
proof -
  have i1: "pixel_index 128 0 = 129" and i2: "pixel_index (- 1) 0 = 0"
    by (simp_all add: pixel_index_def OLED_WIDTH_def)
  show ?thesis
    using draw_buffer_framing [of "0xFF" world0 127 63 env0 1]
      draw_buffer_framing [of "0xFF" world0 128 0 env0 1]
      draw_buffer_framing [of "0xFF" world0 "- 1" 0 env0 1]
    by (simp add: OLED_WIDTH_def OLED_HEIGHT_def i1 i2)
qed

subsection \<open>Coordinates are not checked\<close>

text \<open>
  The pixel (128, 0) is outside the display and \<^verbatim>\<open>drawPixel\<close> neither fails nor leaves the
  buffer alone: it sets bit 0 of byte 129. At (-1, 0) it sets bit 7 of byte 0, the command
  byte, which goes out as 0xC0.
\<close>

theorem drawPixel_unchecked_counterexample:
  "\<not> sint (128 :: 16 word) < OLED_WIDTH \<and>
   drawPixel 128 0 world0 = Inr (world0\<lparr>trace := [SendData (frame0[129 := 1])]\<rparr>) \<and>
   \<not> 0 \<le> sint (- 1 :: 16 word) \<and>
   drawPixel (- 1) 0 world0 = Inr (world0\<lparr>trace := [SendData (frame0[0 := 0xC0])]\<rparr>)"
proof -
  have i1: "pixel_index 128 0 = 129" and m1: "pixel_mask 128 = 1"
    by (simp_all add: pixel_index_def pixel_mask_def OLED_WIDTH_def)
  have i2: "pixel_index (- 1) 0 = 0" and m2: "pixel_mask (- 1) = 128"
    by (simp_all add: pixel_index_def pixel_mask_def OLED_WIDTH_def)
  have "drawPixel 128 0 world0 = Inr (world0\<lparr>trace := [SendData (frame0[129 := 1])]\<rparr>)"
    using drawPixel_in_buffer [of 128 0 world0] by (simp add: i1 m1 frame0_nth world0_def)
  moreover have "drawPixel (- 1) 0 world0 = Inr (world0\<lparr>trace := [SendData (frame0[0 := 0xC0])]\<rparr>)"
    using drawPixel_in_buffer [of "- 1" 0 world0] by (simp add: i2 m2 frame0_nth world0_def)
  ultimately show ?thesis
    by (simp add: OLED_WIDTH_def)
qed

text \<open>
  Claim C5, as amended. \<^verbatim>\<open>drawPixel\<close> has no check on its coordinates. It returns exactly
  when the index \<open>1 + x + (y >> 3) * 128\<close> lies in the buffer, from 0 to 1024, whatever x and
  y are; it then sets bit \<open>x AND 7\<close> of the byte at that index, leaves every other byte as
  initialised and transmits the buffer. For any other index the write is outside the
  buffer.
\<close>

theorem drawPixel_unchecked:
  "((\<exists>w'. drawPixel x y w = Inr w') \<longleftrightarrow> 0 \<le> pixel_index x y \<and> pixel_index x y < 1025) \<and>
   (0 \<le> pixel_index x y \<and> pixel_index x y < 1025 \<longrightarrow>
      (\<exists>buf. drawPixel x y w = Inr (w\<lparr>trace := trace w @ [SendData buf]\<rparr>) \<and>
         length buf = 1025 \<and>
         bit (buf ! nat (pixel_index x y)) (nat (sint x AND 7)) \<and>
         (\<forall>i < 1025. i \<noteq> nat (pixel_index x y) \<longrightarrow> buf ! i = frame0 ! i))) \<and>
   (\<not> (0 \<le> pixel_index x y \<and> pixel_index x y < 1025) \<longrightarrow>
      drawPixel x y w = Inl (OutOfBuffer (pixel_index x y)))"
proof (intro conjI impI)
  show "(\<exists>w'. drawPixel x y w = Inr w') \<longleftrightarrow> 0 \<le> pixel_index x y \<and> pixel_index x y < 1025"
  proof (cases "0 \<le> pixel_index x y \<and> pixel_index x y < 1025")
    case True
    then show ?thesis using drawPixel_in_buffer [of x y w] by simp
  next
    case False
    then show ?thesis using drawPixel_outside [of x y w] by simp
  qed
next
  assume a: "0 \<le> pixel_index x y \<and> pixel_index x y < 1025"
  let ?k = "nat (pixel_index x y)"
  let ?buf = "frame0[?k := word_of_int (uint (frame0 ! ?k) OR pixel_mask x)]"
  have k: "?k < 1025" using a by linarith
  have "drawPixel x y w = Inr (w\<lparr>trace := trace w @ [SendData ?buf]\<rparr>)"
    using a by (intro drawPixel_in_buffer) simp_all
  moreover have "nat (sint x AND 7) < 8"
    using and7_range(2) [of "sint x"] by linarith
  then have "bit (?buf ! ?k) (nat (sint x AND 7))"
    using k by (simp add: length_frame0 bit_simps pixel_mask_def)
  ultimately show "\<exists>buf. drawPixel x y w = Inr (w\<lparr>trace := trace w @ [SendData buf]\<rparr>) \<and>
         length buf = 1025 \<and>
         bit (buf ! nat (pixel_index x y)) (nat (sint x AND 7)) \<and>
         (\<forall>i < 1025. i \<noteq> nat (pixel_index x y) \<longrightarrow> buf ! i = frame0 ! i)"
    by (intro exI [of _ ?buf]) (simp add: length_frame0)
next
  assume "\<not> (0 \<le> pixel_index x y \<and> pixel_index x y < 1025)"
  then show "drawPixel x y w = Inl (OutOfBuffer (pixel_index x y))"
    by (rule drawPixel_outside)
qed

theorem drawPixel_unchecked_witness:
  "(\<exists>buf. drawPixel 128 0 world0 = Inr (world0\<lparr>trace := trace world0 @ [SendData buf]\<rparr>) \<and>
      length buf = 1025 \<and> bit (buf ! 129) 0) \<and>
   drawPixel 0 64 world0 = Inl (OutOfBuffer 1025)"
proof -
  have i1: "pixel_index 128 0 = 129" and i2: "pixel_index 0 64 = 1025"
    by (simp_all add: pixel_index_def OLED_WIDTH_def)
  show ?thesis
    using drawPixel_unchecked [of 128 0 world0] drawPixel_unchecked [of 0 64 world0]
    by (auto simp add: i1 i2)
qed

subsection \<open>The wait for the button\<close>

text \<open>
  Claim C6. \<^verbatim>\<open>waitButtonPress\<close> does not return while every poll reads unpressed, and
  never returns when all of them do; it returns at the first poll that reads pressed,
  having done nothing but poll. A round whose polls all read unpressed hangs, and a round
  that returns has got past the wait on a poll that read pressed.
\<close>

theorem waitButtonPress_blocks:
  "(waitButtonPress e w = None \<longleftrightarrow> (\<forall>k\<ge>polls w. \<not> button e k)) \<and>
   (waitButtonPress e w = Some w' \<longleftrightarrow>
      (\<exists>k\<ge>polls w. button e k \<and> (\<forall>j. polls w \<le> j \<and> j < k \<longrightarrow> \<not> button e j) \<and>
         w' = w\<lparr>polls := Suc k\<rparr>)) \<and>
   ((\<forall>k\<ge>polls w. \<not> button e k) \<longrightarrow> performReactionRound e tot round w = Inl Hang) \<and>
   (performReactionRound e tot round w = Inr (t', w'') \<longrightarrow>
      (\<exists>k\<ge>polls w. button e k \<and> (\<forall>j. polls w \<le> j \<and> j < k \<longrightarrow> \<not> button e j) \<and>
         polls w'' = Suc k))"
  using waitButtonPress_None_iff [of e w] waitButtonPress_Some_iff [of e w w']
    performReactionRound_never [of w e tot round]
    performReactionRound_Inr(5) [of e tot round w t' w'']
  by blast

theorem waitButtonPress_blocks_witness:
  "waitButtonPress env0 world0 = Some (world0\<lparr>polls := 2\<rparr>) \<and>
   waitButtonPress env_idle world0 = None \<and>
   performReactionRound env_idle 0 1 world0 = Inl Hang"
proof -
  have "\<exists>k\<ge>polls world0. button env0 k \<and>
          (\<forall>j. polls world0 \<le> j \<and> j < k \<longrightarrow> \<not> button env0 j) \<and>
          world0\<lparr>polls := 2\<rparr> = world0\<lparr>polls := Suc k\<rparr>"
    by (intro exI [of _ 1]) (simp add: env0_def world0_def)
  then have "waitButtonPress env0 world0 = Some (world0\<lparr>polls := 2\<rparr>)"
    using waitButtonPress_blocks [of env0 world0 "world0\<lparr>polls := 2\<rparr>"] by blast
  moreover have idle: "\<forall>k\<ge>polls world0. \<not> button env_idle k"
    by (simp add: env_idle_def)
  then have "waitButtonPress env_idle world0 = None"
    "performReactionRound env_idle 0 1 world0 = Inl Hang"
    using waitButtonPress_blocks [of env_idle world0 _ 0 1] by blast+
  ultimately show ?thesis by simp
qed

subsection \<open>The random pixel\<close>

text \<open>
  Claim C8. The coordinates \<^verbatim>\<open>getRandCoordinate\<close> produces lie between 1 and 50; the
  16-bit parameters of \<^verbatim>\<open>drawPixel\<close> hold them unchanged; the index computed from two of
  them is above 0 and at most 1024, so \<^verbatim>\<open>drawPixel\<close> writes inside the buffer and the
  command byte stays 0x40.
\<close>

theorem random_pixel_in_buffer:
  "(let randX = fst (getRandCoordinate e w1);
        randY = fst (getRandCoordinate e w2);
        x = (word_of_int randX :: 16 word);
        y = (word_of_int randY :: 16 word)
    in 1 \<le> randX \<and> randX \<le> 50 \<and> 1 \<le> randY \<and> randY \<le> 50 \<and>
       sint x = randX \<and> sint y = randY \<and>
       pixel_index x y = 1 + randX + drop_bit 3 randY * 128 \<and>
       0 < pixel_index x y \<and> pixel_index x y \<le> 1024 \<and>
       (\<exists>buf. drawPixel x y w = Inr (w\<lparr>trace := trace w @ [SendData buf]\<rparr>) \<and>
          length buf = 1025 \<and> buf ! 0 = 0x40))"
proof -
  let ?cx = "int (rand e (rand_calls w1)) smod 50 + 1"
  let ?cy = "int (rand e (rand_calls w2)) smod 50 + 1"
  let ?x = "word_of_int ?cx :: 16 word" and ?y = "word_of_int ?cy :: 16 word"
  let ?k = "nat (pixel_index ?x ?y)"
  let ?buf = "frame0[?k := word_of_int (uint (frame0 ! ?k) OR pixel_mask ?x)]"
  have cx: "1 \<le> ?cx" "?cx \<le> 50" and cy: "1 \<le> ?cy" "?cy \<le> 50"
    using coordinate_range [of "rand e (rand_calls w1)"]
      coordinate_range [of "rand e (rand_calls w2)"] by simp_all
  have sx: "sint ?x = ?cx" and sy: "sint ?y = ?cy"
    using cx cy by (simp_all only: sint_coordinate)
  have rng: "2 \<le> pixel_index ?x ?y \<and> pixel_index ?x ?y \<le> 819"
    using cx cy by (rule pixel_index_coordinates)
  have idx: "pixel_index ?x ?y = 1 + ?cx + drop_bit 3 ?cy * 128"
    by (simp add: pixel_index_def sx sy OLED_WIDTH_def del: of_int_add)
  have draw: "drawPixel ?x ?y w = Inr (w\<lparr>trace := trace w @ [SendData ?buf]\<rparr>)"
    using rng by (intro drawPixel_in_buffer) simp_all
  have b0: "?buf ! 0 = 0x40"
    using rng by (simp add: frame0_nth)
  have lo: "0 < pixel_index ?x ?y" and hi: "pixel_index ?x ?y \<le> 1024"
    using rng by linarith+
  have ex: "\<exists>buf. drawPixel ?x ?y w = Inr (w\<lparr>trace := trace w @ [SendData buf]\<rparr>) \<and>
          length buf = 1025 \<and> buf ! 0 = 0x40"
    using draw b0 by (intro exI [of _ ?buf]) (simp add: length_frame0)
  show ?thesis
    unfolding Let_def getRandCoordinate_eq fst_conv
    using cx cy sx sy idx lo hi ex by (intro conjI)
qed

theorem random_pixel_in_buffer_witness:
  "fst (getRandCoordinate env0 (world0\<lparr>rand_calls := 3\<rparr>)) = 25 \<and>
   fst (getRandCoordinate env0 (world0\<lparr>rand_calls := 4\<rparr>)) = 32 \<and>
   pixel_index 25 32 = 538 \<and>
   (\<exists>buf. drawPixel 25 32 world0 = Inr (world0\<lparr>trace := trace world0 @ [SendData buf]\<rparr>) \<and>
      length buf = 1025 \<and> buf ! 0 = 0x40)"
proof -
  have c: "fst (getRandCoordinate env0 (world0\<lparr>rand_calls := 3\<rparr>)) = 25"
    "fst (getRandCoordinate env0 (world0\<lparr>rand_calls := 4\<rparr>)) = 32"
    by (simp_all add: getRandCoordinate_eq env0_def signed_modulo_int_def)
  show ?thesis
    using random_pixel_in_buffer [of env0 "world0\<lparr>rand_calls := 3\<rparr>" "world0\<lparr>rand_calls := 4\<rparr>" world0]
    by (simp add: Let_def c)
qed

subsection \<open>The LEDs\<close>

text \<open>
  Claim C9. When \<^verbatim>\<open>handleButtonPress\<close> returns both LED pins are 0: it has written 1 to
  P2 (reaction time at most \<open>AVG_RTIME\<close>) or to P0, scrolled the time, and written 0 to
  both. So a round ends with both LEDs off. The countdown, the stimulus and the wait leave
  the pins as they were, so a round that begins with both off keeps them off until the
  press is handled.
\<close>

theorem leds_cleared:
  "(\<exists>r. handleButtonPress e startTime tot w =
        (tot + r,
         w\<lparr>pins := (\<lambda>p. 0),
           trace := trace w @
             [PinWrite (if sint r \<le> AVG_RTIME then P2 else P0) 1, ScrollInt r,
              PinWrite P0 0, PinWrite P2 0],
           clock_reads := Suc (clock_reads w)\<rparr>)) \<and>
   pins (snd (handleButtonPress e startTime tot w)) P0 = 0 \<and>
   pins (snd (handleButtonPress e startTime tot w)) P2 = 0 \<and>
   pins (clearLEDs w) P0 = 0 \<and> pins (clearLEDs w) P2 = 0 \<and>
   (performReactionRound e tot round w = Inr (t', w') \<longrightarrow> pins w' P0 = 0 \<and> pins w' P2 = 0) \<and>
   pins (showCountdown w) = pins w \<and>
   (displayRandomPattern e round w = Inr w1 \<longrightarrow> pins w1 = pins w) \<and>
   (waitButtonPress e w = Some w2 \<longrightarrow> pins w2 = pins w)"
proof (intro conjI impI)
  show "\<exists>r. handleButtonPress e startTime tot w =
        (tot + r,
         w\<lparr>pins := (\<lambda>p. 0),
           trace := trace w @
             [PinWrite (if sint r \<le> AVG_RTIME then P2 else P0) 1, ScrollInt r,
              PinWrite P0 0, PinWrite P2 0],
           clock_reads := Suc (clock_reads w)\<rparr>)"
    by (intro exI [of _ "ucast (clock e (clock_reads w) - scast startTime)"])
      (simp add: handleButtonPress_eq)
  show "pins (snd (handleButtonPress e startTime tot w)) P0 = 0"
    "pins (snd (handleButtonPress e startTime tot w)) P2 = 0"
    by (simp_all add: handleButtonPress_eq)
  show "pins (clearLEDs w) P0 = 0" "pins (clearLEDs w) P2 = 0"
    by (simp_all add: clearLEDs_def setDigitalValue_def)
  show "pins (showCountdown w) = pins w"
    by (simp add: showCountdown_eq)
next
  assume r: "performReactionRound e tot round w = Inr (t', w')"
  show "pins w' P0 = 0" "pins w' P2 = 0"
    by (simp_all add: performReactionRound_Inr(3) [OF r])
next
  assume "displayRandomPattern e round w = Inr w1"
  then show "pins w1 = pins w"
    using displayRandomPattern_returns [of e round w] by auto
next
  assume "waitButtonPress e w = Some w2"
  then show "pins w2 = pins w"
    by (auto simp add: waitButtonPress_Some_iff)
qed

theorem leds_cleared_witness:
  "\<exists>t' w'. performReactionRound env0 0 1 world0 = Inr (t', w') \<and>
      pins w' P0 = 0 \<and> pins w' P2 = 0"
proof -
  have "polls world0 \<le> 1" "button env0 1"
    by (simp_all add: world0_def env0_def)
  then obtain t' w' where r: "performReactionRound env0 0 1 world0 = Inr (t', w')"
    using performReactionRound_pressed by blast
  with leds_cleared [of env0 0 0 world0 1 t' w'] show ?thesis by blast
qed

subsection \<open>The random delay\<close>

text \<open>
  Claim C10. \<^verbatim>\<open>randDelay\<close> sleeps for \<open>(rand() % 5 + 1) * 1000\<close> milliseconds, one of
  1000, 2000, 3000, 4000 and 5000, whatever \<^verbatim>\<open>rand()\<close> returns, and that sleep is the
  first thing \<^verbatim>\<open>displayRandomPattern\<close> does, before the stimulus is sent.
\<close>

theorem randDelay_sleeps:
  "(let r = int (rand e (rand_calls w)); delay = (r smod 5 + 1) * 1000
    in randDelay e w =
         w\<lparr>trace := trace w @ [Sleep (word_of_int delay)], rand_calls := Suc (rand_calls w)\<rparr> \<and>
       uint (word_of_int delay :: 32 word) = delay \<and>
       delay \<in> {1000, 2000, 3000, 4000, 5000} \<and>
       (\<exists>buf n. displayRandomPattern e round w =
          Inr (w\<lparr>trace := trace w @
                 [Sleep (word_of_int delay), Sleep (randDelay_addr e), SendData buf],
               rand_calls := n\<rparr>)))"
proof -
  let ?r = "int (rand e (rand_calls w))"
  let ?delay = "(?r smod 5 + 1) * 1000"
  have "?r smod 5 = int (rand e (rand_calls w) mod 5)"
    using smod_nat [of 5 "rand e (rand_calls w)"] by simp
  moreover have "rand e (rand_calls w) mod 5 < 5" by simp
  ultimately have five: "?r smod 5 \<in> {0, 1, 2, 3, 4}"
    by (simp only: insert_iff) linarith
  then have set: "?delay \<in> {1000, 2000, 3000, 4000, 5000}"
    by auto
  then have u: "uint (word_of_int ?delay :: 32 word) = ?delay"
    by (auto simp add: uint_word_of_int)
  have d: "\<exists>buf n. displayRandomPattern e round w =
          Inr (w\<lparr>trace := trace w @
                 [Sleep (word_of_int ?delay), Sleep (randDelay_addr e), SendData buf],
               rand_calls := n\<rparr>)"
    using displayRandomPattern_returns [of e round w] by blast
  show ?thesis
    using set u d by (simp only: Let_def randDelay_eq)
qed

theorem randDelay_sleeps_witness:
  "randDelay env0 world0 = world0\<lparr>trace := [Sleep 4000], rand_calls := 1\<rparr> \<and>
   (\<exists>buf n. displayRandomPattern env0 1 world0 =
      Inr (world0\<lparr>trace := [Sleep 4000, Sleep 0x1C0D5, SendData buf], rand_calls := n\<rparr>))"
proof -
  have r: "int (rand env0 (rand_calls world0)) smod 5 = 3"
    by (simp add: env0_def world0_def signed_modulo_int_def)
  show ?thesis
    using randDelay_sleeps [of env0 world0 1]
    by (simp add: Let_def r) (simp add: world0_def env0_def)
qed

end
